theory Spec2Isabelle
  imports Complex_Main "HOL-Library.Char_ord" "HOL-Library.List_Lexorder"
begin

section \<open>Brand sales aggregation (sales_numbers.py)\<close>

text \<open>
  A shallow embedding of the functions of \<^verbatim>\<open>sales_numbers.py\<close>:
  \<^verbatim>\<open>find_sales_columns\<close>, \<^verbatim>\<open>parse_money\<close>, \<^verbatim>\<open>detect_brand\<close> and
  \<^verbatim>\<open>aggregate_sales\<close>.

  Conventions of the model.
  \<^item> A Python \<^verbatim>\<open>str\<close> is a \<open>string\<close> holding its UTF-8 bytes. The euro sign is the three
    bytes \<open>E2 82 AC\<close>, the en dash of the B2B pattern the three bytes \<open>E2 80 93\<close>. Case
    mapping and white space are those of ASCII; bytes from \<open>0x80\<close> on are left alone by
    \<open>lower\<close> and are never white space.
  \<^item> A Python \<^verbatim>\<open>float\<close> is the rational number it stands for. Amounts are added
    exactly: the rounding of IEEE-754 addition, infinities and the order in which pandas
    adds a column are not part of the model.
  \<^item> An exception is a value of type \<open>error\<close>; a function that can raise returns
    \<open>error + 'a\<close>, with \<open>Inl\<close> for the exception.
\<close>

subsection \<open>Cells and exceptions\<close>

datatype error = ValueError string | KeyError string

text \<open>
  A cell of a table read by \<^verbatim>\<open>pd.read_csv\<close>: missing (\<^verbatim>\<open>NaN\<close>), an integer, a float
  or a string.
\<close>

datatype cell = NA | IntV int | FloatV rat | Str string

subsection \<open>Strings\<close>

definition is_space :: "char \<Rightarrow> bool" where
  "is_space c = (let n = (of_char c :: nat) in (9 \<le> n \<and> n \<le> 13) \<or> (28 \<le> n \<and> n \<le> 32))"

definition is_digit :: "char \<Rightarrow> bool" where
  "is_digit c = (c \<in> set ''0123456789'')"

definition lower_char :: "char \<Rightarrow> char" where
  "lower_char c =
     (case map_of (zip ''ABCDEFGHIJKLMNOPQRSTUVWXYZ'' ''abcdefghijklmnopqrstuvwxyz'') c of
        Some l \<Rightarrow> l
      | None \<Rightarrow> c)"

definition lower :: "string \<Rightarrow> string" where
  "lower s = map lower_char s"

definition strip :: "string \<Rightarrow> string" where
  "strip s = rev (dropWhile is_space (rev (dropWhile is_space s)))"

text \<open>\<^verbatim>\<open>s.startswith(p)\<close>.\<close>

definition startswith :: "string \<Rightarrow> string \<Rightarrow> bool" where
  "startswith s p = (take (length p) s = p)"

text \<open>
  \<^verbatim>\<open>str(v)\<close> for a cell. A string is itself and \<^verbatim>\<open>NaN\<close> prints as \<^verbatim>\<open>nan\<close>. An integer
  prints in decimal. A float prints its sign, its integer part, a period and its
  fraction digits (at least one, at most seventeen); Python switches to exponent notation
  for very large and very small floats, which is not modelled.
\<close>

definition digit_char :: "nat \<Rightarrow> char" where
  "digit_char d = ''0123456789'' ! (d mod 10)"

fun show_nat :: "nat \<Rightarrow> string" where
  "show_nat n = (if n < 10 then [digit_char n]
                 else show_nat (n div 10) @ [digit_char (n mod 10)])"

declare show_nat.simps [simp del]

fun frac_digits :: "nat \<Rightarrow> rat \<Rightarrow> string" where
  "frac_digits 0 r = []"
| "frac_digits (Suc k) r =
     (if r = 0 then []
      else (let d = nat \<lfloor>10 * r\<rfloor> in digit_char d # frac_digits k (10 * r - of_nat d)))"

definition float_repr :: "rat \<Rightarrow> string" where
  "float_repr q =
     (let a = \<bar>q\<bar>; i = nat \<lfloor>a\<rfloor>; f = frac_digits 17 (a - of_nat i)
      in (if q < 0 then ''-'' else []) @ show_nat i @ ''.'' @ (if f = [] then ''0'' else f))"

fun py_str :: "cell \<Rightarrow> string" where
  "py_str (Str s) = s"
| "py_str NA = ''nan''"
| "py_str (IntV n) = (if n < 0 then ''-'' else []) @ show_nat (nat \<bar>n\<bar>)"
| "py_str (FloatV q) = float_repr q"

subsection \<open>Configuration\<close>

text \<open>
  \<^verbatim>\<open>BRAND_MAP\<close> is a dict literal; iteration follows insertion order, so it is a list of
  (pattern, brand) pairs.
\<close>

definition BRAND_MAP :: "(string \<times> string) list" where
  "BRAND_MAP = [(''^TH_'', ''Theonia EU''), (''^EU-PG-'', ''PupGrade EU''),
                (''^EU-PC-B-'', ''Cosy House EU'')]"

subsection \<open>parse_money\<close>

definition digits_val :: "string \<Rightarrow> nat" where
  "digits_val s = foldl (\<lambda>n c. 10 * n + (of_char c - 48)) 0 s"

text \<open>
  \<^verbatim>\<open>float(s)\<close> on the strings \<^verbatim>\<open>parse_money\<close> passes to it, which hold digits and
  periods only: digits with at most one period and at least one digit are a number,
  anything else raises \<^verbatim>\<open>ValueError\<close>.
\<close>

definition py_float :: "string \<Rightarrow> error + rat" where
  "py_float s =
     (let ip = takeWhile is_digit s; r = dropWhile is_digit s;
          err = Inl (ValueError (''could not convert string to float: '' @ [CHR 0x27] @ s @ [CHR 0x27]))
      in case r of
           [] \<Rightarrow> if ip = [] then err else Inr (of_nat (digits_val ip))
         | c # fp \<Rightarrow>
             if c = CHR ''.'' \<and> list_all is_digit fp \<and> (ip \<noteq> [] \<or> fp \<noteq> [])
             then Inr (of_nat (digits_val ip) + of_nat (digits_val fp) / 10 ^ length fp)
             else err)"

text \<open>\<^verbatim>\<open>re.sub(r'[^0-9.]', '', value)\<close>: keep the digits and the periods.\<close>

definition clean_money :: "string \<Rightarrow> string" where
  "clean_money s = filter (\<lambda>c. is_digit c \<or> c = CHR ''.'') s"

fun parse_money :: "cell \<Rightarrow> error + rat" where
  "parse_money NA = Inr 0"
| "parse_money (IntV n) = Inr (of_int n)"
| "parse_money (FloatV q) = Inr q"
| "parse_money (Str s) = (let clean = clean_money s in if clean \<noteq> [] then py_float clean else Inr 0)"

subsection \<open>detect_brand\<close>

text \<open>
  \<^verbatim>\<open>re.match(pattern, s)\<close> for the patterns of \<^verbatim>\<open>BRAND_MAP\<close>: an optional \<^verbatim>\<open>^\<close> and
  then literal characters. \<^verbatim>\<open>re.match\<close> matches at the start of the string only.
\<close>

fun re_match :: "string \<Rightarrow> string \<Rightarrow> bool" where
  "re_match (c # lit) s = (if c = CHR ''^'' then startswith s lit else startswith s (c # lit))"
| "re_match [] s = True"

fun detect_brand_in :: "(string \<times> string) list \<Rightarrow> string \<Rightarrow> string" where
  "detect_brand_in [] s = ''Other''"
| "detect_brand_in ((pattern, brand) # rules) s =
     (if re_match pattern s then brand else detect_brand_in rules s)"

definition detect_brand :: "cell \<Rightarrow> string" where
  "detect_brand sku = detect_brand_in BRAND_MAP (py_str sku)"

subsection \<open>Tables\<close>

text \<open>
  A \<^verbatim>\<open>DataFrame\<close> with the default index: the number of rows and the columns in their
  order, each a name and its cells. In a table built by \<^verbatim>\<open>pd.read_csv\<close> the column
  names are distinct and every column has one cell for each row (\<open>wf_df\<close>).
\<close>

record dataframe =
  nrows :: nat
  cols :: "(string \<times> cell list) list"

definition columns :: "dataframe \<Rightarrow> string list" where
  "columns df = map fst (cols df)"

definition wf_df :: "dataframe \<Rightarrow> bool" where
  "wf_df df = (distinct (columns df) \<and> list_all (\<lambda>vs. length vs = nrows df) (map snd (cols df)))"

text \<open>\<^verbatim>\<open>df[c]\<close> raises \<^verbatim>\<open>KeyError\<close> when there is no column \<open>c\<close>.\<close>

definition getitem :: "dataframe \<Rightarrow> string \<Rightarrow> error + cell list" where
  "getitem df c = (case map_of (cols df) c of None \<Rightarrow> Inl (KeyError c) | Some vs \<Rightarrow> Inr vs)"

text \<open>
  \<^verbatim>\<open>df[c] = values\<close> replaces the column \<open>c\<close> where it stands, or appends it as the last
  column when the table has none of that name.
\<close>

fun assign :: "string \<Rightarrow> cell list \<Rightarrow> (string \<times> cell list) list \<Rightarrow> (string \<times> cell list) list" where
  "assign c vs [] = [(c, vs)]"
| "assign c vs ((c', vs') # rest) =
     (if c' = c then (c, vs) # rest else (c', vs') # assign c vs rest)"

definition setitem :: "dataframe \<Rightarrow> string \<Rightarrow> cell list \<Rightarrow> dataframe" where
  "setitem df c vs = df\<lparr>cols := assign c vs (cols df)\<rparr>"

text \<open>\<^verbatim>\<open>series.apply(f)\<close>: the first exception raised by \<open>f\<close> ends the call.\<close>

fun apply_series :: "(cell \<Rightarrow> error + 'a) \<Rightarrow> cell list \<Rightarrow> error + 'a list" where
  "apply_series f [] = Inr []"
| "apply_series f (v # vs) =
     (case f v of
        Inl e \<Rightarrow> Inl e
      | Inr y \<Rightarrow> (case apply_series f vs of Inl e \<Rightarrow> Inl e | Inr ys \<Rightarrow> Inr (y # ys)))"

text \<open>\<^verbatim>\<open>df[c].apply(f)\<close>.\<close>

definition column_apply :: "(cell \<Rightarrow> error + 'a) \<Rightarrow> dataframe \<Rightarrow> string \<Rightarrow> error + 'a list" where
  "column_apply f df c = (case getitem df c of Inl e \<Rightarrow> Inl e | Inr vs \<Rightarrow> apply_series f vs)"

subsection \<open>find_sales_columns\<close>

definition en_dash :: string where
  "en_dash = [CHR 0xE2, CHR 0x80, CHR 0x93]"

text \<open>The character class of the pattern, an en dash or a hyphen: what follows one of them, if
  the string starts with one.\<close>

definition after_dash :: "string \<Rightarrow> string option" where
  "after_dash s =
     (if startswith s en_dash then Some (drop (length en_dash) s)
      else if startswith s ''-'' then Some (drop 1 s)
      else None)"

text \<open>
  \<^verbatim>\<open>re.match(r'ordered product sales\s*[<en dash>-]\s*b2b', name, re.I)\<close>: a match at the start of
  \<open>name\<close>, letters compared without case. Neither a dash nor \<open>b\<close> is white space, so
  the greedy \<^verbatim>\<open>\s*\<close> never has to give a character back.
\<close>

definition b2b_match :: "string \<Rightarrow> bool" where
  "b2b_match name =
     (let p = ''ordered product sales'' in
      if lower (take (length p) name) = p
      then (case after_dash (dropWhile is_space (drop (length p) name)) of
              None \<Rightarrow> False
            | Some r \<Rightarrow> lower (take 3 (dropWhile is_space r)) = ''b2b'')
      else False)"

text \<open>The loop over \<^verbatim>\<open>df.columns\<close>; the state is \<open>(total_col, b2b_col)\<close>.\<close>

fun find_loop :: "string list \<Rightarrow> string option \<times> string option \<Rightarrow> string option \<times> string option" where
  "find_loop [] st = st"
| "find_loop (col # rest) (total_col, b2b_col) =
     (let name = lower (strip col)
      in find_loop rest
           (if name = ''ordered product sales'' then Some col else total_col,
            if b2b_match name then Some col else b2b_col))"

definition find_sales_columns :: "dataframe \<Rightarrow> error + (string \<times> string option)" where
  "find_sales_columns df =
     (case find_loop (columns df) (None, None) of
        (None, b2b_col) \<Rightarrow> Inl (ValueError ''Couldn't find 'Ordered Product Sales' column.'')
      | (Some total_col, b2b_col) \<Rightarrow> Inr (total_col, b2b_col))"

subsection \<open>aggregate_sales\<close>

record summary_row =
  Brand :: string
  Consumer_Sales :: rat
  B2B_Sales :: rat
  Total_Sales :: rat

text \<open>The sum of the values of the rows whose brand is \<open>k\<close>.\<close>

definition group_sum :: "string list \<Rightarrow> rat list \<Rightarrow> string \<Rightarrow> rat" where
  "group_sum brand vals k = sum_list (map snd (filter (\<lambda>(b, v). b = k) (zip brand vals)))"

text \<open>
  \<^verbatim>\<open>df.groupby('Brand')[[...]].sum()\<close>, renamed, with the index made a column again:
  one row for each brand that occurs, the brands in ascending order (\<^verbatim>\<open>groupby\<close> sorts
  the group keys unless told otherwise).
\<close>

definition groupby_sum :: "string list \<Rightarrow> rat list \<Rightarrow> rat list \<Rightarrow> rat list \<Rightarrow> summary_row list" where
  "groupby_sum brand sales_consumer sales_b2b sales_total =
     map (\<lambda>k. \<lparr>Brand = k,
               Consumer_Sales = group_sum brand sales_consumer k,
               B2B_Sales = group_sum brand sales_b2b k,
               Total_Sales = group_sum brand sales_total k\<rparr>)
         (sort (remdups brand))"

text \<open>
  \<^verbatim>\<open>sort_values('Total Sales', ascending=False)\<close>. For a descending sort pandas reverses
  the rows, sorts them in ascending order of the key and reverses the result. The
  ascending sort is taken to keep rows with equal keys in their order: pandas promises
  no order among equal keys for its default kind of sort, and numpy's portable
  implementation of it is an insertion sort on an array of fewer than 17 elements (the
  summary has at most four rows, \<open>length_groupby_sum\<close>). The sort sees the totals only,
  in the order of the groups, whatever the order of the rows of the table was.
\<close>

definition sort_values_desc :: "summary_row list \<Rightarrow> summary_row list" where
  "sort_values_desc rows = rev (sort_key Total_Sales (rev rows))"

text \<open>\<^verbatim>\<open>if b2b_col:\<close> holds for a string that is not empty.\<close>

fun truthy :: "string option \<Rightarrow> bool" where
  "truthy None = False"
| "truthy (Some s) = (s \<noteq> [])"

text \<open>
  The function changes its argument, so the model returns the table as the call leaves
  it together with the summary or the exception. The three series of amounts and the
  series of brands are kept as values after they are stored in the table: the four
  names stored differ from each other, so reading them back gives the same series
  (\<open>getitem_setitem\<close>, \<open>getitem_setitem_other\<close>).
\<close>

definition aggregate_sales :: "dataframe \<Rightarrow> dataframe \<times> (error + summary_row list)" where
  "aggregate_sales df =
     (case find_sales_columns df of
        Inl e \<Rightarrow> (df, Inl e)
      | Inr (total_col, b2b_col) \<Rightarrow>
     (case column_apply parse_money df total_col of
        Inl e \<Rightarrow> (df, Inl e)
      | Inr sales_consumer \<Rightarrow>
     (let df1 = setitem df ''__sales_consumer'' (map FloatV sales_consumer) in
     (case (if truthy b2b_col then column_apply parse_money df1 (the b2b_col)
            else Inr (replicate (nrows df1) 0)) of
        Inl e \<Rightarrow> (df1, Inl e)
      | Inr sales_b2b \<Rightarrow>
     (let df2 = setitem df1 ''__sales_b2b'' (map FloatV sales_b2b);
          sales_total = map2 (+) sales_consumer sales_b2b;
          df3 = setitem df2 ''__sales_total'' (map FloatV sales_total) in
     (case getitem df3 ''SKU'' of
        Inl e \<Rightarrow> (df3, Inl e)
      | Inr sku \<Rightarrow>
     (let brand = map detect_brand sku;
          df4 = setitem df3 ''Brand'' (map Str brand)
      in (df4, Inr (sort_values_desc (groupby_sum brand sales_consumer sales_b2b sales_total))))))))))"

section \<open>Example tables\<close>

text \<open>A report with no consumer sales column: its B2B column alone does not count as one.\<close>

definition no_sales_df :: dataframe where
  "no_sales_df = \<lparr>nrows = 2, cols = [(''SKU'', [Str ''TH_1'', Str ''ZZ'']),
      (''Ordered Product Sales - B2B'', [Str ''$5.00'', Str ''$7.00'']),
      (''Units Ordered'', [IntV 1, IntV 2])]\<rparr>"

text \<open>
  The report of the specification's end-to-end scenario: three rows, a consumer column
  and a B2B column whose name is written with an en dash.
\<close>

definition spec_df :: dataframe where
  "spec_df = \<lparr>nrows = 3, cols =
     [(''SKU'', [Str ''TH_1'', Str ''EU-PG-2'', Str ''ZZ'']),
      (''Ordered Product Sales'',
         [Str ([CHR 0xE2, CHR 0x82, CHR 0xAC] @ ''100.00''), Str ([CHR 0xE2, CHR 0x82, CHR 0xAC] @ ''50.00''), Str ''$10'']),
      (''Ordered product sales '' @ en_dash @ '' B2B'',
         [NA, Str ([CHR 0xE2, CHR 0x82, CHR 0xAC] @ ''25.00''), NA])]\<rparr>"

text \<open>Two brands with the same total and no B2B column; the first row is a Theonia SKU.\<close>

definition tie_df :: dataframe where
  "tie_df = \<lparr>nrows = 2, cols =
     [(''SKU'', [Str ''TH_1'', Str ''XYZ'']),
      (''Ordered Product Sales'', [Str ''$10.00'', Str ''$10.00''])]\<rparr>"

text \<open>The same report with its two rows exchanged.\<close>

definition tie_rev_df :: dataframe where
  "tie_rev_df = \<lparr>nrows = 2, cols =
     [(''SKU'', [Str ''XYZ'', Str ''TH_1'']),
      (''Ordered Product Sales'', [Str ''$10.00'', Str ''$10.00''])]\<rparr>"

text \<open>Reports with no \<^verbatim>\<open>SKU\<close> column.\<close>

definition no_sku_df :: dataframe where
  "no_sku_df = \<lparr>nrows = 1, cols = [(''Title'', [Str ''Dog bed''])]\<rparr>"

definition no_sku_bad_cell_df :: dataframe where
  "no_sku_bad_cell_df = \<lparr>nrows = 1, cols = [(''Ordered Product Sales'', [Str ''1.2.3''])]\<rparr>"

definition no_sku_sales_df :: dataframe where
  "no_sku_sales_df = \<lparr>nrows = 1, cols = [(''Ordered Product Sales'', [Str ''$12.50''])]\<rparr>"

section \<open>Properties\<close>

subsection \<open>The brand classifier\<close>

lemma detect_brand_in_none:
  "\<forall>r\<in>set rules. \<not> re_match (fst r) s \<Longrightarrow> detect_brand_in rules s = ''Other''"
  by (induction rules) auto

lemma detect_brand_in_first:
  "i < length rules \<Longrightarrow> re_match (fst (rules ! i)) s \<Longrightarrow>
   \<forall>j<i. \<not> re_match (fst (rules ! j)) s \<Longrightarrow> detect_brand_in rules s = snd (rules ! i)"
proof (induction rules arbitrary: i)
  case Nil
  then show ?case by simp
next
  case (Cons r rules)
  obtain p b where r: "r = (p, b)" by (cases r)
  show ?case
  proof (cases i)
    case 0
    with Cons.prems r show ?thesis by simp
  next
    case (Suc k)
    with Cons.prems have "\<not> re_match p s" using r by auto
    moreover have "detect_brand_in rules s = snd (rules ! k)"
      using Cons.prems Suc by (intro Cons.IH) auto
    ultimately show ?thesis using r Suc by simp
  qed
qed

lemma detect_brand_Str:
  "detect_brand (Str s) =
     (if startswith s ''TH_'' then ''Theonia EU''
      else if startswith s ''EU-PG-'' then ''PupGrade EU''
      else if startswith s ''EU-PC-B-'' then ''Cosy House EU''
      else ''Other'')"
  by (simp add: detect_brand_def BRAND_MAP_def)

text \<open>
  Claim C5. \<open>detect_brand\<close> tries the rules of \<open>BRAND_MAP\<close> in their order, each pattern
  matched against the start of the SKU with the case of the letters kept, and returns the
  brand of the first rule that matches, or \<open>Other\<close> when none does. The four SKUs of
  the specification get the brands it names; a SKU in lower case or with a character
  before the prefix gets \<open>Other\<close>. For any list of rules, the rule at position \<open>i\<close>
  decides when it matches and no rule before it does, whatever the later rules are.
\<close>

theorem detect_brand_first_match:
  "detect_brand (Str ''TH_001'') = ''Theonia EU''
   \<and> detect_brand (Str ''EU-PG-55'') = ''PupGrade EU''
   \<and> detect_brand (Str ''EU-PC-B-9'') = ''Cosy House EU''
   \<and> detect_brand (Str ''XYZ'') = ''Other''
   \<and> detect_brand (Str ''th_001'') = ''Other''
   \<and> detect_brand (Str ''XTH_001'') = ''Other''
   \<and> detect_brand (Str s) =
        (if startswith s ''TH_'' then ''Theonia EU''
         else if startswith s ''EU-PG-'' then ''PupGrade EU''
         else if startswith s ''EU-PC-B-'' then ''Cosy House EU''
         else ''Other'')
   \<and> (i < length rules \<and> re_match (fst (rules ! i)) t \<and> (\<forall>j<i. \<not> re_match (fst (rules ! j)) t)
        \<longrightarrow> detect_brand_in rules t = snd (rules ! i))
   \<and> ((\<forall>r\<in>set rules. \<not> re_match (fst r) t) \<longrightarrow> detect_brand_in rules t = ''Other'')"
  using detect_brand_in_first [of i rules t] detect_brand_in_none [of rules t]
  by (simp add: detect_brand_Str startswith_def)

theorem detect_brand_first_match_witness:
  "re_match ''^EU-'' ''EU-PG-7'' \<and> re_match ''^EU-PG-'' ''EU-PG-7''
   \<and> detect_brand_in [(''^TH_'', ''first''), (''^EU-'', ''second''), (''^EU-PG-'', ''third'')] ''EU-PG-7'' = ''second''
   \<and> detect_brand_in [(''^TH_'', ''first'')] ''EU-PG-7'' = ''Other''
   \<and> detect_brand (Str ''EU-PG-7'') = ''PupGrade EU''"
  using detect_brand_first_match [of "''EU-PG-7''" 1
      "[(''^TH_'', ''first''), (''^EU-'', ''second''), (''^EU-PG-'', ''third'')]" "''EU-PG-7''"]
    detect_brand_first_match [of "''EU-PG-7''" 0 "[(''^TH_'', ''first'')]" "''EU-PG-7''"]
  by (simp add: startswith_def)

subsection \<open>The money parser\<close>

lemma digits_val_append:
  "digits_val (a @ b) = digits_val a * 10 ^ length b + digits_val b"
proof (induction b rule: rev_induct)
  case Nil
  show ?case by (simp add: digits_val_def)
next
  case (snoc c b)
  have "digits_val (a @ b @ [c]) = 10 * digits_val (a @ b) + (of_char c - 48)"
    by (simp add: digits_val_def)
  also have "\<dots> = digits_val a * 10 ^ length (b @ [c]) + (10 * digits_val b + (of_char c - 48))"
    by (simp add: snoc.IH algebra_simps)
  also have "10 * digits_val b + (of_char c - 48) = digits_val (b @ [c])"
    by (simp add: digits_val_def)
  finally show ?case .
qed

lemma clean_money_chars: "c \<in> set (clean_money s) \<Longrightarrow> is_digit c \<or> c = CHR ''.''"
  by (simp add: clean_money_def)

lemma not_digit_period [simp]: "\<not> is_digit CHR ''.''"
  by (simp add: is_digit_def)

text \<open>
  \<open>py_float\<close> on a string of digits and periods, told by counting: at most one period
  and at least one digit make a number, whose value is the digits read as one integer,
  divided by ten for each digit after the period.
\<close>

lemma py_float_wellformed:
  assumes chars: "\<forall>c\<in>set s. is_digit c \<or> c = CHR ''.''"
  shows "py_float s =
     (if count_list s CHR ''.'' \<le> 1 \<and> list_ex is_digit s
      then Inr (of_nat (digits_val (filter is_digit s)) / 10 ^ length (tl (dropWhile is_digit s)))
      else Inl (ValueError (''could not convert string to float: '' @ [CHR 0x27] @ s @ [CHR 0x27])))"
proof -
  define ip where "ip = takeWhile is_digit s"
  define r where "r = dropWhile is_digit s"
  have s: "s = ip @ r" by (simp add: ip_def r_def)
  have ipd: "list_all is_digit ip"
    unfolding ip_def list_all_iff by (auto dest: set_takeWhileD)
  have ipc: "count_list ip CHR ''.'' = 0"
    using ipd by (auto simp: count_list_0_iff list_all_iff)
  have ipf: "filter is_digit ip = ip" using ipd by (simp add: list_all_iff)
  show ?thesis
  proof (cases r)
    case Nil
    have "list_ex is_digit s \<longleftrightarrow> ip \<noteq> []"
      using s Nil ipd by (cases ip) (auto simp: list_ex_iff list_all_iff)
    then show ?thesis
      using Nil s ipc ipf unfolding py_float_def ip_def[symmetric] r_def[symmetric]
      by (simp add: Let_def)
  next
    case (Cons c fp)
    have "\<not> is_digit c"
      using Cons unfolding r_def by (metis dropWhile_eq_Cons_conv)
    moreover have "c \<in> set s" using s Cons by simp
    ultimately have c: "c = CHR ''.''" using chars by blast
    have fpchars: "\<forall>x\<in>set fp. is_digit x \<or> x = CHR ''.''" using chars s Cons by simp
    have alld: "list_all is_digit fp \<longleftrightarrow> count_list fp CHR ''.'' = 0"
      using fpchars by (auto simp: count_list_0_iff list_all_iff)
    have cnt: "count_list s CHR ''.'' = Suc (count_list fp CHR ''.'')"
      using s Cons c ipc by simp
    have ex: "list_all is_digit fp \<Longrightarrow> list_ex is_digit s \<longleftrightarrow> ip \<noteq> [] \<or> fp \<noteq> []"
      using s Cons c ipd by (cases ip; cases fp) (auto simp: list_ex_iff list_all_iff)
    have val: "list_all is_digit fp \<Longrightarrow>
        (of_nat (digits_val (filter is_digit s)) :: rat) / 10 ^ length fp
        = of_nat (digits_val ip) + of_nat (digits_val fp) / 10 ^ length fp"
    proof -
      assume a: "list_all is_digit fp"
      then have "filter is_digit s = ip @ fp"
        using s Cons c ipf by (simp add: list_all_iff)
      then show ?thesis by (simp add: digits_val_append field_simps)
    qed
    show ?thesis
    proof (cases "list_all is_digit fp")
      case True
      then show ?thesis
        using Cons c cnt alld ex val unfolding py_float_def ip_def[symmetric] r_def[symmetric]
        by (simp add: Let_def)
    next
      case False
      then show ?thesis
        using Cons c cnt alld unfolding py_float_def ip_def[symmetric] r_def[symmetric]
        by (simp add: Let_def)
    qed
  qed
qed

lemma py_float_digits:
  "list_all is_digit a \<Longrightarrow> a \<noteq> [] \<Longrightarrow> py_float a = Inr (of_nat (digits_val a))"
proof -
  assume a: "list_all is_digit a" and ne: "a \<noteq> []"
  have t: "takeWhile is_digit a = a" and d: "dropWhile is_digit a = []"
    using a by (simp_all add: list_all_iff)
  show ?thesis unfolding py_float_def t d using ne by simp
qed

text \<open>
  Claim C6. \<open>parse_money\<close> by cases: a missing value gives \<open>0.0\<close>; an integer or a
  float is returned as a float, its sign kept; of a string the digits and periods are
  kept and parsed as a float, and the empty remainder gives \<open>0.0\<close>. A string of digits
  alone has the value of its digits. The five examples of the specification evaluate
  as it says.
\<close>

theorem parse_money_cases:
  "parse_money NA = Inr 0
   \<and> parse_money (IntV n) = Inr (of_int n)
   \<and> parse_money (FloatV q) = Inr q
   \<and> parse_money (Str s) = (if clean_money s = [] then Inr 0 else py_float (clean_money s))
   \<and> clean_money s = filter (\<lambda>c. c \<in> set ''0123456789.'') s
   \<and> (list_all is_digit a \<and> a \<noteq> [] \<longrightarrow> parse_money (Str a) = Inr (of_nat (digits_val a)))
   \<and> parse_money (Str ([CHR 0xE2, CHR 0x82, CHR 0xAC] @ ''1,234.56'')) = Inr 1234.56
   \<and> parse_money (Str ''$0.00'') = Inr 0.0
   \<and> parse_money (IntV 42) = Inr 42.0
   \<and> parse_money (FloatV (- 2.5)) = Inr (- 2.5)
   \<and> parse_money (Str '''') = Inr 0.0"
proof -
  have c: "clean_money s = filter (\<lambda>c. c \<in> set ''0123456789.'') s" for s
    unfolding clean_money_def is_digit_def by (rule filter_cong) auto
  have d: "list_all is_digit a \<and> a \<noteq> [] \<longrightarrow> parse_money (Str a) = Inr (of_nat (digits_val a))"
  proof (intro impI, elim conjE)
    assume a: "list_all is_digit a" and ne: "a \<noteq> []"
    then have "clean_money a = a" by (simp add: clean_money_def list_all_iff)
    then show "parse_money (Str a) = Inr (of_nat (digits_val a))"
      using py_float_digits [OF a ne] ne by simp
  qed
  have e1: "parse_money (Str ([CHR 0xE2, CHR 0x82, CHR 0xAC] @ ''1,234.56'')) = Inr 1234.56"
    by (simp add: clean_money_def is_digit_def py_float_def digits_val_def)
  have e2: "parse_money (Str ''$0.00'') = Inr 0.0"
    by (simp add: clean_money_def is_digit_def py_float_def digits_val_def)
  have e3: "parse_money (Str '''') = Inr 0.0"
    by (simp add: clean_money_def)
  show ?thesis using c d e1 e2 e3 by simp
qed

theorem parse_money_cases_witness:
  "list_all is_digit ''2024'' \<and> parse_money (Str ''2024'') = Inr 2024
   \<and> clean_money ''GBP 9,99 net'' = ''999''
   \<and> parse_money (IntV (- 3)) = Inr (- 3)"
  using parse_money_cases [of "- 3" 0 "''GBP 9,99 net''" "''2024''"]
  by (simp add: is_digit_def digits_val_def)


text \<open>
  Claim C4, as amended. On a string, \<open>parse_money\<close> returns \<open>0.0\<close> when no digit and no
  period is left after stripping, and the value of the remainder when that holds at most
  one period and at least one digit. Any other remainder (two periods or more, or periods
  and no digit) is not normalised to \<open>0.0\<close>: \<^verbatim>\<open>float\<close> raises \<^verbatim>\<open>ValueError\<close>, and
  \<open>parse_money\<close> with it.
\<close>

theorem parse_money_string:
  "parse_money (Str s) =
     (let clean = clean_money s in
      if clean = [] then Inr 0
      else if count_list clean CHR ''.'' \<le> 1 \<and> list_ex is_digit clean
      then Inr (of_nat (digits_val (filter is_digit clean)) / 10 ^ length (tl (dropWhile is_digit clean)))
      else Inl (ValueError (''could not convert string to float: '' @ [CHR 0x27] @ clean @ [CHR 0x27])))"
  using py_float_wellformed [of "clean_money s"] clean_money_chars [of _ s]
  by (simp add: Let_def)

theorem parse_money_string_witness:
  "parse_money (Str ''$ 12.50'') = Inr 12.5
   \<and> parse_money (Str ''n/a'') = Inr 0
   \<and> parse_money (Str ''-7'') = Inr 7
   \<and> parse_money (Str ''5.'') = Inr 5
   \<and> parse_money (Str ''.5'') = Inr 0.5
   \<and> parse_money (Str ''N.A.'') = Inl (ValueError (''could not convert string to float: '..'' @ [CHR 0x27]))
   \<and> parse_money (Str ''EUR 1.234.567,89'') = Inl (ValueError (''could not convert string to float: '1.234.56789'' @ [CHR 0x27]))"
  using parse_money_string [of "''$ 12.50''"] parse_money_string [of "''n/a''"]
    parse_money_string [of "''-7''"] parse_money_string [of "''5.''"] parse_money_string [of "''.5''"]
    parse_money_string [of "''N.A.''"] parse_money_string [of "''EUR 1.234.567,89''"]
  by (simp add: clean_money_def is_digit_def digits_val_def)

text \<open>
  The claim as stated fails on \<^verbatim>\<open>"1.2.3"\<close>: the remainder is not a number and the call
  raises.
\<close>

theorem parse_money_malformed_counterexample:
  "parse_money (Str ''1.2.3'') = Inl (ValueError (''could not convert string to float: '1.2.3'' @ [CHR 0x27]))"
  by (simp add: clean_money_def is_digit_def py_float_def)

subsection \<open>Tables\<close>

lemma map_of_assign: "map_of (assign c vs cs) = (map_of cs)(c \<mapsto> vs)"
  by (induction cs) (auto simp: fun_eq_iff)

lemma names_assign:
  "map fst (assign c vs cs) = (if c \<in> set (map fst cs) then map fst cs else map fst cs @ [c])"
proof (induction cs)
  case Nil
  show ?case by simp
next
  case (Cons p cs)
  obtain c' vs' where p: "p = (c', vs')" by (cases p)
  show ?case
  proof (cases "c' = c")
    case True
    with p show ?thesis by simp
  next
    case False
    with p Cons.IH show ?thesis by (cases "c \<in> set (map fst cs)") simp_all
  qed
qed

lemma getitem_setitem: "getitem (setitem df c vs) c = Inr vs"
  by (simp add: getitem_def setitem_def map_of_assign)

lemma getitem_setitem_other: "c' \<noteq> c \<Longrightarrow> getitem (setitem df c vs) c' = getitem df c'"
  by (simp add: getitem_def setitem_def map_of_assign)

lemma nrows_setitem [simp]: "nrows (setitem df c vs) = nrows df"
  by (simp add: setitem_def)

lemma columns_setitem:
  "columns (setitem df c vs) = (if c \<in> set (columns df) then columns df else columns df @ [c])"
  by (simp add: columns_def setitem_def names_assign)

lemma column_apply_setitem_other:
  "c' \<noteq> c \<Longrightarrow> column_apply f (setitem df c vs) c' = column_apply f df c'"
  by (simp add: column_apply_def getitem_setitem_other)

lemma getitem_length: "wf_df df \<Longrightarrow> getitem df c = Inr vs \<Longrightarrow> length vs = nrows df"
proof -
  assume wf: "wf_df df" and g: "getitem df c = Inr vs"
  from g have "map_of (cols df) c = Some vs"
    by (simp add: getitem_def split: option.splits)
  then have "(c, vs) \<in> set (cols df)" by (rule map_of_SomeD)
  with wf show ?thesis by (force simp: wf_df_def list_all_iff)
qed

lemma getitem_in_columns: "getitem df c = Inr vs \<Longrightarrow> c \<in> set (columns df)"
  by (auto simp: getitem_def columns_def split: option.splits dest: map_of_SomeD intro: rev_image_eqI)

lemma getitem_missing: "c \<notin> set (columns df) \<Longrightarrow> getitem df c = Inl (KeyError c)"
proof -
  assume "c \<notin> set (columns df)"
  then have "map_of (cols df) c = None"
    by (simp add: columns_def map_of_eq_None_iff)
  then show ?thesis by (simp add: getitem_def)
qed

lemma apply_series_length: "apply_series f vs = Inr ys \<Longrightarrow> length ys = length vs"
  by (induction vs arbitrary: ys) (auto split: sum.splits)

lemma apply_series_nth:
  "apply_series f vs = Inr ys \<Longrightarrow> i < length vs \<Longrightarrow> f (vs ! i) = Inr (ys ! i)"
proof (induction vs arbitrary: ys i)
  case Nil
  then show ?case by simp
next
  case (Cons v vs)
  then show ?case by (cases i) (auto split: sum.splits)
qed

lemma column_apply_length:
  "wf_df df \<Longrightarrow> column_apply f df c = Inr ys \<Longrightarrow> length ys = nrows df"
proof -
  assume wf: "wf_df df" and a: "column_apply f df c = Inr ys"
  from a obtain vs where g: "getitem df c = Inr vs" and ap: "apply_series f vs = Inr ys"
    by (auto simp: column_apply_def split: sum.splits)
  from apply_series_length [OF ap] getitem_length [OF wf g] show ?thesis by simp
qed

subsection \<open>Column resolution\<close>

lemma find_loop_no_total:
  "\<forall>c\<in>set cs. lower (strip c) \<noteq> ''ordered product sales'' \<Longrightarrow>
   fst (find_loop cs (t, b)) = t"
  by (induction cs arbitrary: t b) (simp_all add: Let_def)



lemma find_loop_total_in:
  "fst (find_loop cs (t, b)) = Some tc \<Longrightarrow>
   t = Some tc \<or> (tc \<in> set cs \<and> lower (strip tc) = ''ordered product sales'')"
  by (induction cs arbitrary: t b) (auto simp: Let_def split: if_splits)

lemma not_b2b_consumer [simp]: "\<not> b2b_match ''ordered product sales''"
  by (simp add: b2b_match_def after_dash_def startswith_def en_dash_def)

lemma find_loop_b2b_in:
  "snd (find_loop cs (t, b)) = Some bc \<Longrightarrow>
   b = Some bc \<or> (bc \<in> set cs \<and> b2b_match (lower (strip bc)))"
  by (induction cs arbitrary: t b) (auto simp: Let_def split: if_splits)

lemma find_loop_no_b2b:
  "\<forall>c\<in>set cs. \<not> b2b_match (lower (strip c)) \<Longrightarrow> snd (find_loop cs (t, b)) = b"
  by (induction cs arbitrary: t b) (simp_all add: Let_def)

lemma find_loop_total_found:
  "\<exists>c\<in>set cs. lower (strip c) = ''ordered product sales'' \<Longrightarrow>
   fst (find_loop cs (t, b)) \<noteq> None"
proof (induction cs arbitrary: t b)
  case Nil
  then show ?case by simp
next
  case (Cons c cs)
  show ?case
  proof (cases "\<exists>c\<in>set cs. lower (strip c) = ''ordered product sales''")
    case True
    then show ?thesis using Cons.IH by (simp add: Let_def)
  next
    case False
    then have "\<forall>c\<in>set cs. lower (strip c) \<noteq> ''ordered product sales''" by blast
    from find_loop_no_total [OF this] False Cons.prems show ?thesis
      by (simp add: Let_def)
  qed
qed

lemma find_sales_columns_Inr:
  assumes "find_sales_columns df = Inr (tc, bc)"
  shows "tc \<in> set (columns df)" "lower (strip tc) = ''ordered product sales''"
    "bc = Some b \<Longrightarrow> b \<in> set (columns df) \<and> b2b_match (lower (strip b))"
proof -
  obtain t b' where fl: "find_loop (columns df) (None, None) = (t, b')"
    by (cases "find_loop (columns df) (None, None)")
  with assms have t: "t = Some tc" and b': "b' = bc"
    by (auto simp: find_sales_columns_def split: option.splits)
  have "fst (find_loop (columns df) (None, None)) = Some tc" using fl t by simp
  from find_loop_total_in [OF this]
  show "tc \<in> set (columns df)" "lower (strip tc) = ''ordered product sales''" by auto
  assume "bc = Some b"
  then have "snd (find_loop (columns df) (None, None)) = Some b" using fl b' by simp
  from find_loop_b2b_in [OF this]
  show "b \<in> set (columns df) \<and> b2b_match (lower (strip b))" by auto
qed

lemma b2b_match_nonempty: "b2b_match (lower (strip c)) \<Longrightarrow> c \<noteq> []"
  by (auto simp: b2b_match_def strip_def lower_def)

lemma found_b2b_truthy: "find_sales_columns df = Inr (tc, Some b) \<Longrightarrow> truthy (Some b)"
  using find_sales_columns_Inr(3) [of df tc "Some b" b] by (auto dest: b2b_match_nonempty)

lemma b2b_not_derived: "b2b_match (lower (strip c)) \<Longrightarrow> c \<noteq> ''__sales_consumer''"
  by (auto simp: b2b_match_def strip_def lower_def is_space_def lower_char_def)

subsection \<open>Grouping and sorting\<close>

lemma group_sum_Nil [simp]: "group_sum [] vals k = 0" "group_sum brand [] k = 0"
  by (simp_all add: group_sum_def)

lemma group_sum_Cons [simp]:
  "group_sum (b # brand) (v # vals) k = (if b = k then v else 0) + group_sum brand vals k"
  by (simp add: group_sum_def)

lemma sum_list_indicator:
  "distinct ks \<Longrightarrow> (\<Sum>k\<leftarrow>ks. if b = k then (v::rat) else 0) = (if b \<in> set ks then v else 0)"
  by (induction ks) auto

lemma group_sum_all:
  "length brand = length vals \<Longrightarrow> distinct ks \<Longrightarrow> set brand \<subseteq> set ks \<Longrightarrow>
   (\<Sum>k\<leftarrow>ks. group_sum brand vals k) = sum_list vals"
proof (induction brand vals rule: list_induct2)
  case Nil
  show ?case by simp
next
  case (Cons b brand v vals)
  have "(\<Sum>k\<leftarrow>ks. group_sum (b # brand) (v # vals) k)
        = (\<Sum>k\<leftarrow>ks. if b = k then v else 0) + (\<Sum>k\<leftarrow>ks. group_sum brand vals k)"
    by (simp add: sum_list_addf)
  also have "(\<Sum>k\<leftarrow>ks. if b = k then v else 0) = v"
    using Cons.prems by (simp add: sum_list_indicator)
  also have "(\<Sum>k\<leftarrow>ks. group_sum brand vals k) = sum_list vals"
    using Cons by simp
  finally show ?case by simp
qed

lemma group_sum_add:
  "length brand = length xs \<Longrightarrow> length xs = length ys \<Longrightarrow>
   group_sum brand (map2 (+) xs ys) k = group_sum brand xs k + group_sum brand ys k"
  by (induction brand xs ys rule: list_induct3) auto

lemma group_sum_zero: "group_sum brand (replicate n 0) k = 0"
proof (induction brand arbitrary: n)
  case Nil
  show ?case by simp
next
  case (Cons b brand)
  show ?case by (cases n) (simp_all add: Cons.IH)
qed

lemma group_sum_index:
  assumes len: "length brand = length vals"
  shows "group_sum brand vals k = (\<Sum>i | i < length brand \<and> brand ! i = k. vals ! i)"
proof -
  let ?n = "length brand"
  let ?f = "\<lambda>p. if fst p = k then snd p else (0::rat)"
  have "group_sum brand vals k = sum_list (map ?f (zip brand vals))"
    unfolding group_sum_def by (simp add: sum_list_map_filter' case_prod_beta)
  also have "\<dots> = (\<Sum>i = 0..<?n. ?f (zip brand vals ! i))"
    using len by (simp add: sum_list_sum_nth)
  also have "\<dots> = (\<Sum>i = 0..<?n. if brand ! i = k then vals ! i else 0)"
    using len by (intro sum.cong) simp_all
  also have "\<dots> = sum ((!) vals) {i \<in> {0..<?n}. brand ! i = k}"
    by (rule sum.inter_filter [symmetric]) simp
  also have "{i \<in> {0..<?n}. brand ! i = k} = {i. i < ?n \<and> brand ! i = k}"
    by auto
  finally show ?thesis .
qed

lemma Brand_groupby_sum [simp]: "map Brand (groupby_sum brand c b t) = sort (remdups brand)"
  by (simp add: groupby_sum_def comp_def)

lemma length_groupby_sum_eq: "length (groupby_sum brand c b t) = card (set brand)"
proof -
  have "length (groupby_sum brand c b t) = length (remdups brand)"
    by (simp add: groupby_sum_def)
  then show ?thesis by (simp add: length_remdups_card_conv)
qed

lemma sum_list_insort_key:
  "sum_list (map f (insort_key k x xs)) = (f x :: rat) + sum_list (map f xs)"
  by (induction xs) auto

lemma sum_list_sort_key: "sum_list (map f (sort_key k xs)) = (sum_list (map f xs) :: rat)"
  by (induction xs) (auto simp: sum_list_insort_key)

lemma sum_list_sort_values_desc:
  "sum_list (map f (sort_values_desc rows)) = (sum_list (map f rows) :: rat)"
  by (simp add: sort_values_desc_def rev_map [symmetric] sum_list_sort_key sum_list_rev)

lemma set_sort_values_desc [simp]: "set (sort_values_desc rows) = set rows"
  by (simp add: sort_values_desc_def)

lemma length_sort_values_desc [simp]: "length (sort_values_desc rows) = length rows"
  by (simp add: sort_values_desc_def)

lemma distinct_sort_values_desc [simp]: "distinct (sort_values_desc rows) = distinct rows"
  by (simp add: sort_values_desc_def)

lemma distinct_Brand_sort_values_desc:
  "distinct (map Brand rows) \<Longrightarrow> distinct (map Brand (sort_values_desc rows))"
  by (simp add: distinct_map)

text \<open>The summary has at most four rows: three brands and \<open>Other\<close>.\<close>

lemma detect_brand_in_range:
  "detect_brand_in rules s \<in> insert ''Other'' (snd ` set rules)"
  by (induction rules) force+

lemma detect_brand_range:
  "detect_brand v \<in> {''Theonia EU'', ''PupGrade EU'', ''Cosy House EU'', ''Other''}"
  using detect_brand_in_range [of BRAND_MAP "py_str v"]
  by (auto simp: detect_brand_def BRAND_MAP_def)

lemma length_groupby_sum: "length (groupby_sum (map detect_brand sku) c b t) \<le> 4"
proof -
  have "set (map detect_brand sku) \<subseteq> {''Theonia EU'', ''PupGrade EU'', ''Cosy House EU'', ''Other''}"
    using detect_brand_range by auto
  then have "card (set (map detect_brand sku)) \<le> card {''Theonia EU'', ''PupGrade EU'', ''Cosy House EU'', ''Other''}"
    by (intro card_mono) simp_all
  also have "\<dots> \<le> 4" by (simp add: card_insert_if)
  finally show ?thesis by (simp only: length_groupby_sum_eq)
qed

subsection \<open>The steps of aggregate_sales\<close>

lemma b2b_read_before:
  assumes f: "find_sales_columns df = Inr (tc, bc)" and t: "truthy bc"
  shows "column_apply g (setitem df ''__sales_consumer'' vs) (the bc) = column_apply g df (the bc)"
proof -
  from t obtain b where b: "bc = Some b" by (cases bc) auto
  from find_sales_columns_Inr(3) [OF f b] have "b \<noteq> ''__sales_consumer''"
    by (auto dest: b2b_not_derived)
  then show ?thesis using b by (simp add: column_apply_setitem_other)
qed

lemma sku_read_before:
  "getitem (setitem (setitem (setitem df ''__sales_consumer'' a) ''__sales_b2b'' b) ''__sales_total'' c) ''SKU''
   = getitem df ''SKU''"
  by (simp add: getitem_setitem_other)

lemma aggregate_sales_find_error:
  "find_sales_columns df = Inl e \<Longrightarrow> aggregate_sales df = (df, Inl e)"
  by (simp add: aggregate_sales_def)

lemma aggregate_sales_consumer_error:
  "find_sales_columns df = Inr (tc, bc) \<Longrightarrow> column_apply parse_money df tc = Inl e \<Longrightarrow>
   aggregate_sales df = (df, Inl e)"
  by (simp add: aggregate_sales_def)

lemma aggregate_sales_b2b_error:
  assumes "find_sales_columns df = Inr (tc, bc)" "column_apply parse_money df tc = Inr cons"
    "truthy bc" "column_apply parse_money df (the bc) = Inl e"
  shows "aggregate_sales df = (setitem df ''__sales_consumer'' (map FloatV cons), Inl e)"
  using assms by (simp add: aggregate_sales_def Let_def b2b_read_before [OF assms(1,3)])

lemma aggregate_sales_rest:
  assumes "find_sales_columns df = Inr (tc, bc)" "column_apply parse_money df tc = Inr cons"
    "(if truthy bc then column_apply parse_money df (the bc) else Inr (replicate (nrows df) 0)) = Inr b2b"
  shows "aggregate_sales df =
     (let df3 = setitem (setitem (setitem df ''__sales_consumer'' (map FloatV cons))
                  ''__sales_b2b'' (map FloatV b2b)) ''__sales_total'' (map FloatV (map2 (+) cons b2b))
      in case getitem df ''SKU'' of
           Inl e \<Rightarrow> (df3, Inl e)
         | Inr sku \<Rightarrow>
             (setitem df3 ''Brand'' (map Str (map detect_brand sku)),
              Inr (sort_values_desc (groupby_sum (map detect_brand sku) cons b2b (map2 (+) cons b2b)))))"
proof (cases "truthy bc")
  case True
  with assms show ?thesis
    by (simp add: aggregate_sales_def Let_def sku_read_before b2b_read_before [OF assms(1) True]
          split: sum.splits)
next
  case False
  with assms show ?thesis
    by (simp add: aggregate_sales_def Let_def sku_read_before split: sum.splits)
qed

text \<open>What a successful call has computed.\<close>

lemma aggregate_sales_success:
  assumes "aggregate_sales df = (df', Inr s)"
  obtains tc bc cons b2b sku where
    "find_sales_columns df = Inr (tc, bc)"
    "column_apply parse_money df tc = Inr cons"
    "(if truthy bc then column_apply parse_money df (the bc) else Inr (replicate (nrows df) 0)) = Inr b2b"
    "getitem df ''SKU'' = Inr sku"
    "s = sort_values_desc (groupby_sum (map detect_brand sku) cons b2b (map2 (+) cons b2b))"
    "df' = setitem (setitem (setitem (setitem df ''__sales_consumer'' (map FloatV cons))
                  ''__sales_b2b'' (map FloatV b2b)) ''__sales_total'' (map FloatV (map2 (+) cons b2b)))
                  ''Brand'' (map Str (map detect_brand sku))"
proof (cases "find_sales_columns df")
  case (Inl e)
  with assms show ?thesis by (simp add: aggregate_sales_find_error)
next
  case (Inr p)
  obtain tc bc where p: "p = (tc, bc)" by (cases p)
  note f = Inr [unfolded p]
  show ?thesis
  proof (cases "column_apply parse_money df tc")
    case (Inl e)
    with assms f show ?thesis by (simp add: aggregate_sales_consumer_error)
  next
    case c: (Inr cons)
    show ?thesis
    proof (cases "if truthy bc then column_apply parse_money df (the bc) else Inr (replicate (nrows df) 0)")
      case (Inl e)
      then have "truthy bc" "column_apply parse_money df (the bc) = Inl e"
        by (auto split: if_splits)
      from aggregate_sales_b2b_error [OF f c this] assms show ?thesis by simp
    next
      case b: (Inr b2b)
      show ?thesis
      proof (cases "getitem df ''SKU''")
        case (Inl e)
        with aggregate_sales_rest [OF f c b] assms show ?thesis by (simp add: Let_def)
      next
        case (Inr sku)
        with aggregate_sales_rest [OF f c b] assms that [OF f c b Inr] show ?thesis
          by (simp add: Let_def)
      qed
    qed
  qed
qed

subsection \<open>The order of the summary\<close>

lemma sorted_wrt_insort_key_ties:
  fixes f :: "'a \<Rightarrow> 'b::linorder" and g :: "'a \<Rightarrow> 'c::order"
  assumes "sorted_wrt (\<lambda>a b. f a < f b \<or> (f a = f b \<and> g b < g a)) ys"
    and "\<forall>y\<in>set ys. g y < g x"
  shows "sorted_wrt (\<lambda>a b. f a < f b \<or> (f a = f b \<and> g b < g a)) (insort_key f x ys)"
  using assms
proof (induction ys)
  case Nil
  show ?case by simp
next
  case (Cons y ys)
  show ?case
  proof (cases "f x \<le> f y")
    case True
    have "f x < f z \<or> (f x = f z \<and> g z < g x)" if "z \<in> set (y # ys)" for z
    proof -
      have "f y \<le> f z" using that Cons.prems(1) by auto
      with True have "f x \<le> f z" by simp
      moreover have "g z < g x" using that Cons.prems(2) by auto
      ultimately show ?thesis by auto
    qed
    with True Cons.prems(1) show ?thesis by simp
  next
    case False
    have "sorted_wrt (\<lambda>a b. f a < f b \<or> (f a = f b \<and> g b < g a)) (insort_key f x ys)"
      using Cons by simp
    moreover have "f y < f z \<or> (f y = f z \<and> g z < g y)" if "z \<in> set (insort_key f x ys)" for z
      using that False Cons.prems(1) by (auto simp: set_insort_key)
    ultimately show ?thesis using False by simp
  qed
qed

lemma sorted_wrt_sort_key_ties:
  fixes f :: "'a \<Rightarrow> 'b::linorder" and g :: "'a \<Rightarrow> 'c::order"
  assumes "sorted_wrt (\<lambda>a b. g b < g a) zs"
  shows "sorted_wrt (\<lambda>a b. f a < f b \<or> (f a = f b \<and> g b < g a)) (sort_key f zs)"
  using assms
proof (induction zs)
  case Nil
  show ?case by simp
next
  case (Cons z zs)
  then have "sorted_wrt (\<lambda>a b. f a < f b \<or> (f a = f b \<and> g b < g a)) (sort_key f zs)"
    and "\<forall>y\<in>set (sort_key f zs). g y < g z"
    by simp_all
  from sorted_wrt_insort_key_ties [OF this] show ?case by simp
qed

lemma sort_values_desc_order:
  assumes "sorted_wrt (\<lambda>a b. Brand a < Brand b) rows"
  shows "sorted_wrt (\<lambda>a b. Total_Sales b < Total_Sales a \<or> (Total_Sales a = Total_Sales b \<and> Brand a < Brand b))
           (sort_values_desc rows)"
proof -
  have "sorted_wrt (\<lambda>a b. Brand b < Brand a) (rev rows)"
    using assms by (simp add: sorted_wrt_rev)
  from sorted_wrt_sort_key_ties [OF this, of Total_Sales]
  have "sorted_wrt (\<lambda>a b. Total_Sales b < Total_Sales a \<or> (Total_Sales b = Total_Sales a \<and> Brand a < Brand b))
          (rev (sort_key Total_Sales (rev rows)))"
    by (simp add: sorted_wrt_rev)
  then show ?thesis
    unfolding sort_values_desc_def by (rule sorted_wrt_mono_rel [rotated]) auto
qed

lemma groupby_sum_sorted: "sorted_wrt (\<lambda>a b. Brand a < Brand b) (groupby_sum brand c b t)"
proof -
  have "sorted_wrt (<) (map Brand (groupby_sum brand c b t))"
    by (simp add: strict_sorted_iff)
  then show ?thesis by (simp only: sorted_wrt_map)
qed

lemma tie_df_result:
  "aggregate_sales tie_df =
     (\<lparr>nrows = 2, cols =
        [(''SKU'', [Str ''TH_1'', Str ''XYZ'']),
         (''Ordered Product Sales'', [Str ''$10.00'', Str ''$10.00'']),
         (''__sales_consumer'', [FloatV 10, FloatV 10]),
         (''__sales_b2b'', [FloatV 0, FloatV 0]),
         (''__sales_total'', [FloatV 10, FloatV 10]),
         (''Brand'', [Str ''Theonia EU'', Str ''Other''])]\<rparr>,
      Inr [\<lparr>Brand = ''Other'', Consumer_Sales = 10, B2B_Sales = 0, Total_Sales = 10\<rparr>,
           \<lparr>Brand = ''Theonia EU'', Consumer_Sales = 10, B2B_Sales = 0, Total_Sales = 10\<rparr>])"
  by code_simp




subsection \<open>Conservation\<close>

lemma spec_df_result:
  "aggregate_sales spec_df =
     (\<lparr>nrows = 3, cols =
        [(''SKU'', [Str ''TH_1'', Str ''EU-PG-2'', Str ''ZZ'']),
         (''Ordered Product Sales'',
            [Str ([CHR 0xE2, CHR 0x82, CHR 0xAC] @ ''100.00''), Str ([CHR 0xE2, CHR 0x82, CHR 0xAC] @ ''50.00''), Str ''$10'']),
         (''Ordered product sales '' @ en_dash @ '' B2B'',
            [NA, Str ([CHR 0xE2, CHR 0x82, CHR 0xAC] @ ''25.00''), NA]),
         (''__sales_consumer'', [FloatV 100, FloatV 50, FloatV 10]),
         (''__sales_b2b'', [FloatV 0, FloatV 25, FloatV 0]),
         (''__sales_total'', [FloatV 100, FloatV 75, FloatV 10]),
         (''Brand'', [Str ''Theonia EU'', Str ''PupGrade EU'', Str ''Other''])]\<rparr>,
      Inr [\<lparr>Brand = ''Theonia EU'', Consumer_Sales = 100, B2B_Sales = 0, Total_Sales = 100\<rparr>,
           \<lparr>Brand = ''PupGrade EU'', Consumer_Sales = 50, B2B_Sales = 25, Total_Sales = 75\<rparr>,
           \<lparr>Brand = ''Other'', Consumer_Sales = 10, B2B_Sales = 0, Total_Sales = 10\<rparr>])"
  by code_simp

lemma wf_spec_df: "wf_df spec_df"
  by (simp add: wf_df_def spec_df_def columns_def en_dash_def)

lemma wf_tie_df: "wf_df tie_df"
  by (simp add: wf_df_def tie_df_def columns_def)

lemma b2b_length:
  assumes "wf_df df"
    "(if truthy bc then column_apply parse_money df (the bc) else Inr (replicate (nrows df) 0)) = Inr b2b"
  shows "length b2b = nrows df"
  using assms by (auto split: if_splits dest: column_apply_length)

text \<open>
  In the exact arithmetic of the model, the total of a summary row is the sum of its
  consumer and B2B amounts.
\<close>

lemma summary_total_exact:
  assumes wf: "wf_df df" and agg: "aggregate_sales df = (df', Inr s)" and r: "r \<in> set s"
  shows "Total_Sales r = Consumer_Sales r + B2B_Sales r"
proof -
  from agg obtain tc bc cons b2b sku where
    c: "column_apply parse_money df tc = Inr cons" and
    b: "(if truthy bc then column_apply parse_money df (the bc)
         else Inr (replicate (nrows df) 0)) = Inr b2b" and
    k: "getitem df ''SKU'' = Inr sku" and
    s: "s = sort_values_desc (groupby_sum (map detect_brand sku) cons b2b (map2 (+) cons b2b))"
    by (rule aggregate_sales_success)
  have lc: "length cons = nrows df" using wf c by (rule column_apply_length)
  have lb: "length b2b = nrows df" using wf b by (rule b2b_length)
  have lk: "length sku = nrows df" using wf k by (rule getitem_length)
  from r have "r \<in> set (groupby_sum (map detect_brand sku) cons b2b (map2 (+) cons b2b))"
    by (simp add: s)
  then show ?thesis
    using lc lb lk by (auto simp: groupby_sum_def group_sum_add)
qed



subsection \<open>No B2B column\<close>



subsection \<open>The frame effect\<close>

text \<open>
  Claim C10. A successful call changes the table it is given: afterwards the table has
  its columns as before, followed by those of \<^verbatim>\<open>__sales_consumer\<close>, \<^verbatim>\<open>__sales_b2b\<close>,
  \<^verbatim>\<open>__sales_total\<close> and \<^verbatim>\<open>Brand\<close> it did not have; the four columns hold the parsed
  amounts, their sums and the brands; every other column and the number of rows are as
  before. Unless the table already had all four columns, it is not the table it was.
\<close>

theorem aggregate_sales_mutates_input:
  assumes agg: "aggregate_sales df = (df', Inr s)"
  shows "columns df' = columns df @ filter (\<lambda>c. c \<notin> set (columns df))
            [''__sales_consumer'', ''__sales_b2b'', ''__sales_total'', ''Brand'']
       \<and> nrows df' = nrows df
       \<and> (\<forall>c. c \<notin> set [''__sales_consumer'', ''__sales_b2b'', ''__sales_total'', ''Brand'']
            \<longrightarrow> getitem df' c = getitem df c)
       \<and> (\<exists>cons b2b sku.
            getitem df ''SKU'' = Inr sku
          \<and> getitem df' ''__sales_consumer'' = Inr (map FloatV cons)
          \<and> getitem df' ''__sales_b2b'' = Inr (map FloatV b2b)
          \<and> getitem df' ''__sales_total'' = Inr (map FloatV (map2 (+) cons b2b))
          \<and> getitem df' ''Brand'' = Inr (map Str (map detect_brand sku)))
       \<and> (\<not> set [''__sales_consumer'', ''__sales_b2b'', ''__sales_total'', ''Brand''] \<subseteq> set (columns df)
            \<longrightarrow> df' \<noteq> df)"
proof -
  from agg obtain cons b2b sku where
    k: "getitem df ''SKU'' = Inr sku" and
    d: "df' = setitem (setitem (setitem (setitem df ''__sales_consumer'' (map FloatV cons))
                  ''__sales_b2b'' (map FloatV b2b)) ''__sales_total'' (map FloatV (map2 (+) cons b2b)))
                  ''Brand'' (map Str (map detect_brand sku))"
    by (rule aggregate_sales_success)
  have cs: "columns df' = columns df @ filter (\<lambda>c. c \<notin> set (columns df))
            [''__sales_consumer'', ''__sales_b2b'', ''__sales_total'', ''Brand'']"
    unfolding d by (simp add: columns_setitem)
  have n: "nrows df' = nrows df" unfolding d by simp
  have other: "getitem df' c = getitem df c"
    if "c \<notin> set [''__sales_consumer'', ''__sales_b2b'', ''__sales_total'', ''Brand'']" for c
    using that unfolding d by (simp add: getitem_setitem_other)
  have g1: "getitem df' ''__sales_consumer'' = Inr (map FloatV cons)"
    unfolding d by (simp add: getitem_setitem_other getitem_setitem)
  have g2: "getitem df' ''__sales_b2b'' = Inr (map FloatV b2b)"
    unfolding d by (simp add: getitem_setitem_other getitem_setitem)
  have g3: "getitem df' ''__sales_total'' = Inr (map FloatV (map2 (+) cons b2b))"
    unfolding d by (simp add: getitem_setitem_other getitem_setitem)
  have g4: "getitem df' ''Brand'' = Inr (map Str (map detect_brand sku))"
    unfolding d by (simp add: getitem_setitem)
  have changed: "df' \<noteq> df"
    if "\<not> set [''__sales_consumer'', ''__sales_b2b'', ''__sales_total'', ''Brand''] \<subseteq> set (columns df)"
  proof
    assume "df' = df"
    with cs have "filter (\<lambda>c. c \<notin> set (columns df))
            [''__sales_consumer'', ''__sales_b2b'', ''__sales_total'', ''Brand''] = []"
      by simp
    then have "set [''__sales_consumer'', ''__sales_b2b'', ''__sales_total'', ''Brand''] \<subseteq> set (columns df)"
      unfolding filter_empty_conv by blast
    with that show False by contradiction
  qed
  from cs n other k g1 g2 g3 g4 changed show ?thesis by blast
qed

theorem aggregate_sales_mutates_input_witness:
  "columns spec_df = [''SKU'', ''Ordered Product Sales'', ''Ordered product sales '' @ en_dash @ '' B2B'']
   \<and> columns (fst (aggregate_sales spec_df)) =
       [''SKU'', ''Ordered Product Sales'', ''Ordered product sales '' @ en_dash @ '' B2B'',
        ''__sales_consumer'', ''__sales_b2b'', ''__sales_total'', ''Brand'']
   \<and> fst (aggregate_sales spec_df) \<noteq> spec_df"
proof -
  have c: "columns spec_df = [''SKU'', ''Ordered Product Sales'', ''Ordered product sales '' @ en_dash @ '' B2B'']"
    by (simp add: spec_df_def columns_def)
  have n: "\<not> set [''__sales_consumer'', ''__sales_b2b'', ''__sales_total'', ''Brand''] \<subseteq> set (columns spec_df)"
    unfolding c by (simp add: en_dash_def)
  from aggregate_sales_mutates_input [OF spec_df_result] n
  have "fst (aggregate_sales spec_df) \<noteq> spec_df" by (simp add: spec_df_result)
  moreover have "columns (fst (aggregate_sales spec_df)) =
       [''SKU'', ''Ordered Product Sales'', ''Ordered product sales '' @ en_dash @ '' B2B'',
        ''__sales_consumer'', ''__sales_b2b'', ''__sales_total'', ''Brand'']"
    by (simp add: spec_df_result columns_def)
  ultimately show ?thesis using c by simp
qed

subsection \<open>No SKU column\<close>

lemma py_float_error: "py_float s = Inl e \<Longrightarrow> \<exists>m. e = ValueError m"
  by (auto simp: py_float_def Let_def split: list.splits if_splits)

lemma parse_money_error: "parse_money v = Inl e \<Longrightarrow> \<exists>m. e = ValueError m"
  by (cases v) (auto simp: Let_def split: if_splits dest: py_float_error)

lemma apply_series_error: "apply_series f vs = Inl e \<Longrightarrow> \<exists>v\<in>set vs. f v = Inl e"
  by (induction vs) (auto split: sum.splits)

lemma getitem_present: "c \<in> set (columns df) \<Longrightarrow> \<exists>vs. getitem df c = Inr vs"
proof -
  assume "c \<in> set (columns df)"
  then have "map_of (cols df) c \<noteq> None"
    by (simp add: columns_def map_of_eq_None_iff)
  then show ?thesis by (auto simp: getitem_def)
qed

lemma column_apply_error:
  assumes "c \<in> set (columns df)" "column_apply parse_money df c = Inl e"
  shows "\<exists>m. e = ValueError m"
proof -
  from getitem_present [OF assms(1)] obtain vs where g: "getitem df c = Inr vs" ..
  with assms(2) have "apply_series parse_money vs = Inl e" by (simp add: column_apply_def)
  then obtain v where "parse_money v = Inl e" by (auto dest: apply_series_error)
  then show ?thesis by (rule parse_money_error)
qed

lemma find_sales_columns_error:
  "find_sales_columns df = Inl e \<Longrightarrow> e = ValueError ''Couldn't find 'Ordered Product Sales' column.''"
  by (auto simp: find_sales_columns_def split: prod.splits option.splits)

lemma no_sku_sales_df_result:
  "aggregate_sales no_sku_sales_df =
     (\<lparr>nrows = 1, cols = [(''Ordered Product Sales'', [Str ''$12.50'']),
        (''__sales_consumer'', [FloatV 12.5]), (''__sales_b2b'', [FloatV 0]),
        (''__sales_total'', [FloatV 12.5])]\<rparr>,
      Inl (KeyError ''SKU''))"
  by code_simp




end
